theory Spec2Isabelle
  imports Main "HOL-Library.Word"
begin

unbundle bit_operations_syntax

section \<open>C strings\<close>

text \<open>
  A NUL-terminated C string is modelled by the list of the bytes that stand before its
  terminator; the terminator itself is not stored.  \<open>byte_at s i\<close> is the C expression
  \<open>s[i]\<close>: it reads the terminator at \<open>i = length s\<close>.  \<open>strlen\<close> is \<open>length\<close>.
  A list models a C string only when it holds no NUL byte (\<open>cstring\<close>).
\<close>

definition NUL :: char where
  "NUL = CHR 0x00"

definition byte_at :: "string \<Rightarrow> nat \<Rightarrow> char" where
  "byte_at s i = (if i < length s then s ! i else NUL)"

definition cstring :: "string \<Rightarrow> bool" where
  "cstring s = (NUL \<notin> set s)"

text \<open>
  \<open>strncmp(s1, s2, n)\<close> of the C library: the bytes are compared as unsigned values, at
  most \<open>n\<close> of them, and the comparison stops after a terminator.  Only the sign of the
  result is specified; the model returns -1, 0 or 1.
\<close>

fun strncmp :: "string \<Rightarrow> string \<Rightarrow> nat \<Rightarrow> int" where
  "strncmp s1 s2 0 = 0"
| "strncmp s1 s2 (Suc n) =
     (let c1 = byte_at s1 0; c2 = byte_at s2 0
      in if c1 \<noteq> c2 then (if (of_char c1 :: nat) < of_char c2 then - 1 else 1)
         else if c1 = NUL then 0
         else strncmp (tl s1) (tl s2) n)"

section \<open>Errors and tags\<close>

text \<open>
  The functions of \<open>path.c\<close> return \<open>-errno\<close> on failure.  The error numbers are the
  host's; the model names them.  A status is \<open>Inl e\<close> for the return value \<open>-e\<close> and
  \<open>Inr n\<close> for the non-negative return value \<open>n\<close>.  A failed \<open>assert\<close> aborts the
  process: functions that assert return an \<open>option\<close>, and \<open>None\<close> is the abort.
\<close>

datatype errno = EPERM | ENOENT | ENOTDIR | ENAMETOOLONG | ELOOP | Other_errno nat

type_synonym status = "errno + nat"

datatype Finality = NOT_FINAL | FINAL_NORMAL | FINAL_SLASH

datatype Comparison =
  PATHS_ARE_EQUAL | PATH1_IS_PREFIX | PATH2_IS_PREFIX | PATHS_ARE_NOT_COMPARABLE

section \<open>The path lexer\<close>

text \<open>
  The two loops of \<open>next_component\<close> that skip path separators (path.c lines 70-71 and
  90-91) are the same loop; \<open>cursor\<close> is the index of \<open>*cursor\<close> in the path.  A byte
  that is not the terminator lies inside the list, so the index stays in range.
\<close>

function skip_separators :: "string \<Rightarrow> nat \<Rightarrow> nat" where
  "skip_separators path cursor =
     (if byte_at path cursor \<noteq> NUL \<and> byte_at path cursor = CHR ''/''
      then skip_separators path (cursor + 1) else cursor)"
  by pat_completeness auto
termination
  by (relation "measure (\<lambda>(path, cursor). length path - cursor)")
    (auto simp: byte_at_def split: if_splits)

declare skip_separators.simps [simp del]

text \<open>The loop that finds the end of the component, path.c lines 75-76.\<close>

function find_separator :: "string \<Rightarrow> nat \<Rightarrow> nat" where
  "find_separator path cursor =
     (if byte_at path cursor \<noteq> NUL \<and> byte_at path cursor \<noteq> CHR ''/''
      then find_separator path (cursor + 1) else cursor)"
  by pat_completeness auto
termination
  by (relation "measure (\<lambda>(path, cursor). length path - cursor)")
    (auto simp: byte_at_def split: if_splits)

declare find_separator.simps [simp del]

text \<open>
  \<open>next_component\<close>, path.c lines 59-99.  \<open>NAME_MAX\<close> is the host's bound.  The
  function returns the status, the contents of the \<open>component\<close> buffer and the updated
  cursor; on \<open>-ENAMETOOLONG\<close> the buffer is left as it was and the cursor has moved.
\<close>

definition next_component ::
  "nat \<Rightarrow> string \<Rightarrow> string \<Rightarrow> nat \<Rightarrow> (errno + Finality) \<times> string \<times> nat" where
  "next_component NAME_MAX component path cursor =
     (let cursor = skip_separators path cursor;
          start = cursor;
          cursor = find_separator path cursor;
          len = cursor - start
      in if len \<ge> NAME_MAX then (Inl ENAMETOOLONG, component, cursor)
         else
           let component = take len (drop start path);
               want_dir = (byte_at path cursor = CHR ''/'');
               cursor = skip_separators path cursor
           in if byte_at path cursor = NUL
              then (if want_dir then Inr FINAL_SLASH else Inr FINAL_NORMAL, component, cursor)
              else (Inr NOT_FINAL, component, cursor))"

section \<open>Popping the last component\<close>

text \<open>The two loops of \<open>pop_component\<close>, path.c lines 121-122 and 125-126.\<close>

function pop_skip_separators :: "string \<Rightarrow> int \<Rightarrow> int" where
  "pop_skip_separators path offset =
     (if offset > 1 \<and> byte_at path (nat offset) = CHR ''/''
      then pop_skip_separators path (offset - 1) else offset)"
  by pat_completeness auto
termination
  by (relation "measure (\<lambda>(path, offset). nat offset)") auto

declare pop_skip_separators.simps [simp del]

function pop_find_separator :: "string \<Rightarrow> int \<Rightarrow> int" where
  "pop_find_separator path offset =
     (if offset > 1 \<and> byte_at path (nat offset) \<noteq> CHR ''/''
      then pop_find_separator path (offset - 1) else offset)"
  by pat_completeness auto
termination
  by (relation "measure (\<lambda>(path, offset). nat offset)") auto

declare pop_find_separator.simps [simp del]

text \<open>
  \<open>pop_component\<close>, path.c lines 104-131.  \<open>offset\<close> is a C \<open>int\<close>; for the empty
  string \<open>strlen(path) - 1\<close> is -1 and the first \<open>assert\<close> fails.  Writing the
  terminator at \<open>offset\<close> keeps the first \<open>offset\<close> bytes of the string.
\<close>

definition pop_component :: "string \<Rightarrow> string option" where
  "pop_component path =
     (let offset = int (length path) - 1
      in if \<not> offset \<ge> 0 then None
         else if offset = 0
         then (if byte_at path 0 = CHR ''/'' \<and> byte_at path 1 = NUL then Some path else None)
         else
           let offset = pop_skip_separators path offset;
               offset = pop_find_separator path offset;
               path = take (nat offset) path
           in if byte_at path 0 = CHR ''/'' then Some path else None)"

section \<open>The path joiner\<close>

text \<open>
  \<open>strcat(result + offset, s)\<close>: the string \<open>s\<close> is written at the first terminator at
  or after \<open>result + offset\<close>.  When \<open>offset\<close> lies beyond the terminator of \<open>result\<close>
  the bytes are written behind it and the string held by \<open>result\<close> stays as it was.
\<close>

definition strcat_at :: "string \<Rightarrow> nat \<Rightarrow> string \<Rightarrow> string" where
  "strcat_at result offset s = (if offset \<le> length result then result @ s else result)"

text \<open>
  The loop of \<open>join_paths\<close>, path.c lines 149-181, over the variadic arguments; a NULL
  argument is \<open>None\<close>.  \<open>len\<close> is the variable \<open>length\<close>.  \<open>need_separator\<close> is -1
  only when \<open>path\<close> starts with \<open>/\<close>, so the unsigned sum is the integer sum.
\<close>

fun join_paths_loop :: "nat \<Rightarrow> string option list \<Rightarrow> string \<Rightarrow> nat \<Rightarrow> status \<times> string" where
  "join_paths_loop PATH_MAX [] result len = (Inr 0, result)"
| "join_paths_loop PATH_MAX (None # paths) result len = join_paths_loop PATH_MAX paths result len"
| "join_paths_loop PATH_MAX (Some path # paths) result len =
     (let need_separator =
            (if len > 0 \<and> byte_at result (len - 1) \<noteq> CHR ''/'' \<and> byte_at path 0 \<noteq> CHR ''/''
             then 1
             else if len > 0 \<and> byte_at result (len - 1) = CHR ''/'' \<and> byte_at path 0 = CHR ''/''
             then - 1
             else (0 :: int));
          old_length = len;
          len = nat (int len + (int (length path) + need_separator))
      in if len \<ge> PATH_MAX then (Inl ENAMETOOLONG, result)
         else if need_separator = - 1
         then join_paths_loop PATH_MAX paths (strcat_at result old_length (tl path)) len
         else if need_separator = 1
         then join_paths_loop PATH_MAX paths
                (strcat_at (strcat_at result old_length ''/'') (old_length + 1) path) len
         else join_paths_loop PATH_MAX paths (strcat_at result old_length path) len)"

text \<open>
  \<open>join_paths\<close>, path.c lines 138-185.  \<open>number_paths\<close> is the length of the list of
  arguments.  The result is the status and the contents of the \<open>result\<close> buffer.
\<close>

definition join_paths :: "nat \<Rightarrow> string option list \<Rightarrow> status \<times> string" where
  "join_paths PATH_MAX paths = join_paths_loop PATH_MAX paths [] 0"

section \<open>The path comparator\<close>

text \<open>
  \<open>compare_paths2\<close>, path.c lines 406-457.  Both \<open>assert\<close>s on the lengths come first,
  so the early return for an empty path is reached only in a build without assertions;
  it is kept as the source has it.  The final \<open>assert(0)\<close> is the last \<open>else\<close>.
\<close>

definition compare_paths2 :: "string \<Rightarrow> nat \<Rightarrow> string \<Rightarrow> nat \<Rightarrow> Comparison option" where
  "compare_paths2 path1 length1 path2 length2 =
     (if \<not> length1 > 0 then None
      else if \<not> length2 > 0 then None
      else if length1 = 0 \<or> length2 = 0 then Some PATHS_ARE_NOT_COMPARABLE
      else
        let length1 = (if byte_at path1 (length1 - 1) = CHR ''/'' then length1 - 1 else length1);
            length2 = (if byte_at path2 (length2 - 1) = CHR ''/'' then length2 - 1 else length2);
            length_min = (if length1 < length2 then length1 else length2);
            sentinel = (if length1 < length2 then byte_at path2 length_min
                        else byte_at path1 length_min)
        in if sentinel \<noteq> CHR ''/'' \<and> sentinel \<noteq> NUL then Some PATHS_ARE_NOT_COMPARABLE
           else
             let is_prefix = (strncmp path1 path2 length_min = 0)
             in if \<not> is_prefix then Some PATHS_ARE_NOT_COMPARABLE
                else if length1 = length2 then Some PATHS_ARE_EQUAL
                else if length1 < length2 then Some PATH1_IS_PREFIX
                else if length1 > length2 then Some PATH2_IS_PREFIX
                else None)"

definition compare_paths :: "string \<Rightarrow> string \<Rightarrow> Comparison option" where
  "compare_paths path1 path2 = compare_paths2 path1 (length path1) path2 (length path2)"

section \<open>The tracee and what path.c calls\<close>

text \<open>
  The fields \<open>pid\<close> and \<open>root\<close> of the tracee, which \<open>path.c\<close> reads: its process identifier (0 until the
  tracee has started) and the host path of the guest rootfs.
\<close>

record Tracee =
  tracee_pid :: int
  tracee_root :: string

datatype Side = GUEST | HOST

text \<open>
  The functions of the other modules that \<open>path.c\<close> calls are parameters of the model.
  Each takes the buffer it rewrites and returns it with its return value:
  \<open>substitute_binding\<close> and \<open>get_path_binding\<close> of the binding table (the latter
  returns NULL as \<open>None\<close>), \<open>readlink_proc2\<close> of the proc emulator (the length of the
  rewritten path, 0 when no rewrite applies), \<open>notify_extensions\<close> for the event
  \<open>GUEST_PATH\<close>, and \<open>canonicalize\<close>.  Lengths are those of strings held in buffers
  of \<open>PATH_MAX\<close> bytes, so they convert to \<open>int\<close> unchanged.
\<close>

record collaborators =
  substitute_binding :: "Tracee \<Rightarrow> Side \<Rightarrow> string \<Rightarrow> status \<times> string"
  get_path_binding :: "Tracee \<Rightarrow> Side \<Rightarrow> string \<Rightarrow> string option"
  readlink_proc2 :: "Tracee \<Rightarrow> string \<Rightarrow> string \<Rightarrow> nat \<times> string"
  notify_extensions :: "Tracee \<Rightarrow> string \<Rightarrow> string \<Rightarrow> status \<times> string"
  canonicalize :: "Tracee \<Rightarrow> string \<Rightarrow> bool \<Rightarrow> string \<Rightarrow> nat \<Rightarrow> status \<times> string"

text \<open>
  The host system calls: \<open>readlink\<close> and \<open>readlinkat\<close> give the whole target of a
  link (\<open>None\<close> when the call fails; the caller's buffer size truncates it), \<open>stat\<close>
  gives the \<open>st_mode\<close> it stores on success, \<open>opendir\<close> gives the names that the
  successive calls of \<open>readdir\<close> return.
\<close>

record host =
  getpid :: int
  readlink :: "string \<Rightarrow> string option"
  readlinkat :: "string \<Rightarrow> string \<Rightarrow> string option"
  stat :: "string \<Rightarrow> 32 word option"
  opendir :: "string \<Rightarrow> string list option"

definition AT_FDCWD :: int where
  "AT_FDCWD = - 100"

definition S_ISDIR :: "32 word \<Rightarrow> bool" where
  "S_ISDIR st_mode = (st_mode AND 0xF000 = 0x4000)"

text \<open>The conversion \<open>%d\<close> of \<open>snprintf\<close>.\<close>

function dec_nat :: "nat \<Rightarrow> string" where
  "dec_nat n = (if n < 10 then [''0123456789'' ! n]
                else dec_nat (n div 10) @ [''0123456789'' ! (n mod 10)])"
  by pat_completeness auto
termination
  by (relation "measure (\<lambda>n. n)") auto

declare dec_nat.simps [simp del]

definition dec :: "int \<Rightarrow> string" where
  "dec i = (if i < 0 then CHR ''-'' # dec_nat (nat (- i)) else dec_nat (nat i))"

text \<open>
  \<open>atoi\<close> as the C library of a 64-bit host computes it,
  \<open>(int) strtol(s, NULL, 10)\<close>: the digits give a \<open>long\<close> that stops at
  \<open>LONG_MAX\<close> or \<open>LONG_MIN\<close>, and the conversion to \<open>int\<close> keeps its low 32 bits.
\<close>

definition isspace :: "char \<Rightarrow> bool" where
  "isspace c = (c = CHR '' '' \<or> (9 :: nat) \<le> of_char c \<and> (of_char c :: nat) \<le> 13)"

definition isdigit :: "char \<Rightarrow> bool" where
  "isdigit c = ((48 :: nat) \<le> of_char c \<and> (of_char c :: nat) \<le> 57)"

fun atoi_digits :: "int \<Rightarrow> string \<Rightarrow> int" where
  "atoi_digits acc [] = acc"
| "atoi_digits acc (c # s) =
     (if isdigit c then atoi_digits (10 * acc + (of_char c - 48)) s else acc)"

definition strtol :: "string \<Rightarrow> int" where
  "strtol s =
     (let s = dropWhile isspace s;
          v = (if byte_at s 0 = CHR ''-'' then - atoi_digits 0 (tl s)
               else if byte_at s 0 = CHR ''+'' then atoi_digits 0 (tl s)
               else atoi_digits 0 s)
      in max (- (2 ^ 63)) (min (2 ^ 63 - 1) v))"

definition long_to_int :: "int \<Rightarrow> int" where
  "long_to_int v = (let w = v mod 2 ^ 32 in if w \<ge> 2 ^ 31 then w - 2 ^ 32 else w)"

definition atoi :: "string \<Rightarrow> int" where
  "atoi s = long_to_int (strtol s)"

section \<open>The detranslator\<close>

text \<open>\<open>belongs_to_guestfs\<close>, path.c lines 391-397.\<close>

definition belongs_to_guestfs :: "Tracee \<Rightarrow> string \<Rightarrow> bool option" where
  "belongs_to_guestfs tracee host_path =
     (case compare_paths (tracee_root tracee) host_path of
        None \<Rightarrow> None
      | Some comparison \<Rightarrow>
          Some (comparison = PATHS_ARE_EQUAL \<or> comparison = PATH1_IS_PREFIX))"

text \<open>
  The first part of \<open>detranslate_path\<close>, path.c lines 292-342: it either returns from
  the function (\<open>Inl\<close>, with the status and the path) or sets \<open>sanity_check\<close> and
  \<open>follow_binding\<close> (\<open>Inr\<close>).  \<open>None\<close> is a failed assertion.
\<close>

definition detranslate_policy ::
  "collaborators \<Rightarrow> Tracee \<Rightarrow> string \<Rightarrow> string option \<Rightarrow>
     ((status \<times> string) + (bool \<times> bool)) option" where
  "detranslate_policy env tracee path t_referrer =
     (case t_referrer of
        None \<Rightarrow> Some (Inr (True, True))
      | Some referrer \<Rightarrow>
         (case compare_paths ''/proc'' referrer of
            None \<Rightarrow> None
          | Some comparison \<Rightarrow>
             if comparison = PATH1_IS_PREFIX then
               (let (new_length, proc_path) = readlink_proc2 env tracee path referrer
                in if new_length \<noteq> 0 then Some (Inl (Inr (new_length + 1), proc_path))
                   else Some (Inr (False, True)))
             else
               (case belongs_to_guestfs tracee referrer of
                  None \<Rightarrow> None
                | Some True \<Rightarrow> Some (Inr (False, False))
                | Some False \<Rightarrow>
                   (let binding_referree = get_path_binding env tracee HOST path;
                        binding_referrer = get_path_binding env tracee HOST referrer
                    in case binding_referrer of
                         None \<Rightarrow> None
                       | Some referrer_binding \<Rightarrow>
                          (case binding_referree of
                             None \<Rightarrow> Some (Inr (False, False))
                           | Some referree_binding \<Rightarrow>
                              (case compare_paths referree_binding referrer_binding of
                                 None \<Rightarrow> None
                               | Some comparison \<Rightarrow>
                                   Some (Inr (False, comparison = PATHS_ARE_EQUAL))))))))"

text \<open>
  The last part, path.c lines 355-384: the comparison with the guest rootfs.
  \<open>memmove\<close> followed by the terminator keeps \<open>new_length\<close> bytes from
  \<open>prefix_length\<close> on.
\<close>

definition detranslate_root :: "Tracee \<Rightarrow> bool \<Rightarrow> string \<Rightarrow> (status \<times> string) option" where
  "detranslate_root tracee sanity_check path =
     (case compare_paths (tracee_root tracee) path of
        None \<Rightarrow> None
      | Some PATH1_IS_PREFIX \<Rightarrow>
          (let prefix_length = length (tracee_root tracee);
               prefix_length = (if prefix_length = 1 then 0 else prefix_length);
               new_length = length path - prefix_length;
               path = take new_length (drop prefix_length path)
           in Some (Inr (new_length + 1), path))
      | Some PATHS_ARE_EQUAL \<Rightarrow> Some (Inr (1 + 1), ''/'')
      | Some _ \<Rightarrow> (if sanity_check then Some (Inl EPERM, path) else Some (Inr 0, path)))"

text \<open>
  \<open>detranslate_path\<close>, path.c lines 278-385; \<open>t_referrer\<close> is \<open>None\<close> for NULL.  The
  result is the status and the contents of \<open>path\<close>.
\<close>

definition detranslate_path ::
  "collaborators \<Rightarrow> Tracee \<Rightarrow> string \<Rightarrow> string option \<Rightarrow> (status \<times> string) option" where
  "detranslate_path env tracee path t_referrer =
     (if byte_at path 0 \<noteq> CHR ''/'' then Some (Inr 0, path)
      else
        case detranslate_policy env tracee path t_referrer of
          None \<Rightarrow> None
        | Some (Inl returned) \<Rightarrow> Some returned
        | Some (Inr (sanity_check, follow_binding)) \<Rightarrow>
            if follow_binding then
              (case substitute_binding env tracee HOST path of
                 (Inr 0, path) \<Rightarrow> Some (Inr 0, path)
               | (Inr (Suc 0), path) \<Rightarrow> Some (Inr (length path + 1), path)
               | (_, path) \<Rightarrow> detranslate_root tracee sanity_check path)
            else detranslate_root tracee sanity_check path)"

section \<open>The translator\<close>

text \<open>
  \<open>snprintf(link, sizeof(link), ...)\<close> with \<open>sizeof(link) = 32\<close>: the return value is
  the length of the whole formatted text; the two checks of path.c lines 219-222 follow.
\<close>

definition snprintf_link :: "string \<Rightarrow> errno + string" where
  "snprintf_link formatted =
     (let status = int (length formatted)
      in if status < 0 then Inl EPERM
         else if status \<ge> 32 then Inl EPERM
         else Inr formatted)"

text \<open>
  The base of a relative path, path.c lines 211-244.  \<open>statl0\<close> is the \<open>st_mode\<close> that
  the automatic variable \<open>statl\<close> holds before \<open>stat\<close> is called: a failed \<open>stat\<close>
  leaves it there, and its return value is not looked at.
\<close>

definition translate_base ::
  "collaborators \<Rightarrow> host \<Rightarrow> nat \<Rightarrow> 32 word \<Rightarrow> Tracee \<Rightarrow> int \<Rightarrow> int \<Rightarrow> (errno + string) option" where
  "translate_base env os PATH_MAX statl0 tracee pid dir_fd =
     (case snprintf_link
             (if dir_fd = AT_FDCWD then ''/proc/'' @ dec pid @ ''/cwd''
              else ''/proc/'' @ dec pid @ ''/fd/'' @ dec dir_fd) of
        Inl e \<Rightarrow> Some (Inl e)
      | Inr link \<Rightarrow>
         (case readlink os link of
            None \<Rightarrow> Some (Inl EPERM)
          | Some target \<Rightarrow>
             (let status = min (length target) PATH_MAX
              in if status \<ge> PATH_MAX then Some (Inl ENAMETOOLONG)
                 else
                   let result = take status target;
                       st_mode = (case stat os result of None \<Rightarrow> statl0 | Some m \<Rightarrow> m)
                   in if dir_fd \<noteq> AT_FDCWD \<and> \<not> S_ISDIR st_mode then Some (Inl ENOTDIR)
                      else
                        (case detranslate_path env tracee result None of
                           None \<Rightarrow> None
                         | Some (Inl e, result) \<Rightarrow> Some (Inl e)
                         | Some (Inr n, result) \<Rightarrow> Some (Inr result)))))"

text \<open>
  \<open>translate_path\<close>, path.c lines 194-269.  The result is \<open>Inl e\<close> for the return value
  \<open>-e\<close> and \<open>Inr result\<close> for the return value 0 with the contents of \<open>result\<close>.  The
  notices of \<open>VERBOSE\<close> are left out.
\<close>

definition translate_path ::
  "collaborators \<Rightarrow> host \<Rightarrow> nat \<Rightarrow> 32 word \<Rightarrow> Tracee \<Rightarrow> int \<Rightarrow> string \<Rightarrow> bool \<Rightarrow>
     (errno + string) option" where
  "translate_path env os PATH_MAX statl0 tracee dir_fd fake_path deref_final =
     (let pid = (if tracee_pid tracee \<noteq> 0 then tracee_pid tracee else getpid os)
      in case (if byte_at fake_path 0 = CHR ''/'' then Some (Inr ''/'')
               else translate_base env os PATH_MAX statl0 tracee pid dir_fd) of
           None \<Rightarrow> None
         | Some (Inl e) \<Rightarrow> Some (Inl e)
         | Some (Inr result) \<Rightarrow>
            (case notify_extensions env tracee result fake_path of
               (Inl e, result) \<Rightarrow> Some (Inl e)
             | (Inr (Suc n), result) \<Rightarrow> Some (Inr result)
             | (Inr 0, result) \<Rightarrow>
                (case canonicalize env tracee fake_path deref_final result 0 of
                   (Inl e, result) \<Rightarrow> Some (Inl e)
                 | (Inr n, result) \<Rightarrow>
                    (case substitute_binding env tracee GUEST result of
                       (Inl e, result) \<Rightarrow> Some (Inl e)
                     | (Inr n, result) \<Rightarrow> Some (Inr result)))))"

section \<open>Open file descriptors\<close>

text \<open>
  Reading the link of one directory entry, path.c lines 490-504, in both builds:
  with \<open>HAVE_READLINKAT\<close> and without it.  \<open>None\<close> is the \<open>continue\<close> of the loop.
\<close>

definition read_fd_link :: "host \<Rightarrow> nat \<Rightarrow> bool \<Rightarrow> string \<Rightarrow> string \<Rightarrow> string option" where
  "read_fd_link os PATH_MAX HAVE_READLINKAT proc_fd d_name =
     (case (if HAVE_READLINKAT then readlinkat os proc_fd d_name
            else if length proc_fd + length d_name + 1 \<ge> PATH_MAX then None
            else readlink os ((proc_fd @ ''/'') @ d_name)) of
        None \<Rightarrow> None
      | Some target \<Rightarrow>
          (let status = min (length target) PATH_MAX
           in if status \<ge> PATH_MAX then None else Some (take status target)))"

text \<open>
  The loop of \<open>foreach_fd\<close>, path.c lines 489-514, over the names that \<open>readdir\<close>
  returns.  The callback may have an effect: it takes and returns a state.
\<close>

fun foreach_fd_loop ::
  "host \<Rightarrow> nat \<Rightarrow> bool \<Rightarrow> int \<Rightarrow> ('s \<Rightarrow> int \<Rightarrow> int \<Rightarrow> string \<Rightarrow> int \<times> 's) \<Rightarrow> string \<Rightarrow>
     string list \<Rightarrow> 's \<Rightarrow> int \<times> 's" where
  "foreach_fd_loop os PATH_MAX HAVE_READLINKAT pid callback proc_fd [] s = (0, s)"
| "foreach_fd_loop os PATH_MAX HAVE_READLINKAT pid callback proc_fd (d_name # dirents) s =
     (case read_fd_link os PATH_MAX HAVE_READLINKAT proc_fd d_name of
        None \<Rightarrow> foreach_fd_loop os PATH_MAX HAVE_READLINKAT pid callback proc_fd dirents s
      | Some path \<Rightarrow>
          if byte_at path 0 \<noteq> CHR ''/''
          then foreach_fd_loop os PATH_MAX HAVE_READLINKAT pid callback proc_fd dirents s
          else
            let (status, s) = callback s pid (atoi d_name) path
            in if status < 0 then (status, s)
               else foreach_fd_loop os PATH_MAX HAVE_READLINKAT pid callback proc_fd dirents s)"

text \<open>\<open>foreach_fd\<close>, path.c lines 471-519.\<close>

definition foreach_fd ::
  "host \<Rightarrow> nat \<Rightarrow> bool \<Rightarrow> int \<Rightarrow> ('s \<Rightarrow> int \<Rightarrow> int \<Rightarrow> string \<Rightarrow> int \<times> 's) \<Rightarrow> 's \<Rightarrow> int \<times> 's" where
  "foreach_fd os PATH_MAX HAVE_READLINKAT pid callback s =
     (let proc_fd = ''/proc/'' @ dec pid @ ''/fd'';
          status = int (length proc_fd)
      in if status < 0 \<or> status \<ge> 32 then (0, s)
         else
           case opendir os proc_fd of
             None \<Rightarrow> (0, s)
           | Some dirents \<Rightarrow>
               foreach_fd_loop os PATH_MAX HAVE_READLINKAT pid callback proc_fd dirents s)"

text \<open>
  \<open>list_open_fd\<close> and its callback, path.c lines 525-533.  \<open>VERBOSE\<close> is a parameter:
  it takes the state of the notices, the level and the text.
\<close>

definition list_open_fd_callback ::
  "('s \<Rightarrow> nat \<Rightarrow> string \<Rightarrow> 's) \<Rightarrow> 's \<Rightarrow> int \<Rightarrow> int \<Rightarrow> string \<Rightarrow> int \<times> 's" where
  "list_open_fd_callback VERBOSE s pid fd path =
     (0, VERBOSE s 1
           (''pid '' @ dec pid @ '': access to \"'' @ path @ ''\" (fd '' @ dec fd @
            '') won't be translated until closed''))"

definition list_open_fd ::
  "('s \<Rightarrow> nat \<Rightarrow> string \<Rightarrow> 's) \<Rightarrow> host \<Rightarrow> nat \<Rightarrow> bool \<Rightarrow> int \<Rightarrow> 's \<Rightarrow> int \<times> 's" where
  "list_open_fd VERBOSE os PATH_MAX HAVE_READLINKAT pid s =
     foreach_fd os PATH_MAX HAVE_READLINKAT pid (list_open_fd_callback VERBOSE) s"

section \<open>A tracee and collaborators for the examples\<close>

text \<open>
  A tracee whose guest rootfs is \<open>/jail\<close>, and collaborators for a run with no
  binding, no proc emulation and no extension: \<open>substitute_binding\<close> finds no
  binding and leaves the path as it is.
\<close>

definition jail :: Tracee where
  "jail = \<lparr>tracee_pid = 42, tracee_root = ''/jail''\<rparr>"

definition no_bindings :: collaborators where
  "no_bindings =
     \<lparr>substitute_binding = (\<lambda>tracee side path. (Inl ENOENT, path)),
      get_path_binding = (\<lambda>tracee side path. None),
      readlink_proc2 = (\<lambda>tracee proc_path referrer. (0, proc_path)),
      notify_extensions = (\<lambda>tracee result fake_path. (Inr 0, result)),
      canonicalize = (\<lambda>tracee fake_path deref_final result depth. (Inr 0, result))\<rparr>"

text \<open>
  A host on which the tracee 42 has three descriptors: 3 is a directory that has been
  removed (the link reads with the suffix that the kernel adds, and \<open>stat\<close> of that
  text fails), 4 is a socket, 5 is a file of the guest rootfs.
\<close>

definition proc_host :: host where
  "proc_host =
     \<lparr>getpid = 1,
      readlink = (\<lambda>link. if link = ''/proc/42/fd/3'' then Some ''/jail/tmp/gone (deleted)''
                         else if link = ''/proc/42/fd/4'' then Some ''socket:[1234]''
                         else if link = ''/proc/42/fd/5'' then Some ''/jail/etc/passwd''
                         else if link = ''/proc/42/cwd'' then Some ''/jail/home''
                         else None),
      readlinkat = (\<lambda>dir d_name. if dir = ''/proc/42/fd'' \<and> d_name = ''3''
                                  then Some ''/jail/tmp/gone (deleted)''
                                  else if dir = ''/proc/42/fd'' \<and> d_name = ''4''
                                  then Some ''socket:[1234]''
                                  else if dir = ''/proc/42/fd'' \<and> d_name = ''5''
                                  then Some ''/jail/etc/passwd''
                                  else None),
      stat = (\<lambda>path. if path = ''/jail/home'' then Some 0x41ED
                     else if path = ''/jail/etc/passwd'' then Some 0x81A4
                     else None),
      opendir = (\<lambda>dir. if dir = ''/proc/42/fd'' then Some [''.'', ''..'', ''3'', ''4'', ''5'']
                       else None)\<rparr>"

text \<open>
  Collaborators for the translator: the guest rootfs is put in front of a guest path,
  and the canonicalizer joins the base and a path that has no link and no dot.
\<close>

definition jail_collaborators :: collaborators where
  "jail_collaborators =
     no_bindings
       \<lparr>substitute_binding :=
          (\<lambda>tracee side path. if side = GUEST then (Inr 1, tracee_root tracee @ path)
                               else (Inl ENOENT, path)),
        canonicalize :=
          (\<lambda>tracee fake_path deref_final result depth.
             (Inr 0, snd (join_paths 4096 [Some result, Some fake_path])))\<rparr>"


section \<open>The wording of the specification\<close>

text \<open>
  The comparator as the specification words it: one trailing \<open>/\<close> is ignored unless it
  is the sole character of the path; \<open>m\<close> is the smaller trimmed length.
\<close>

definition spec_trimmed_length :: "string \<Rightarrow> nat" where
  "spec_trimmed_length p =
     (if p \<noteq> [] \<and> last p = CHR ''/'' \<and> length p \<noteq> 1 then length p - 1 else length p)"

definition spec_compare :: "string \<Rightarrow> string \<Rightarrow> Comparison" where
  "spec_compare p1 p2 =
     (let n1 = spec_trimmed_length p1; n2 = spec_trimmed_length p2;
          m = min n1 n2;
          longer = (if n1 < n2 then p2 else p1)
      in if \<not> ((byte_at longer m = CHR ''/'' \<or> byte_at longer m = NUL) \<and> take m p1 = take m p2)
         then PATHS_ARE_NOT_COMPARABLE
         else if n1 = n2 then PATHS_ARE_EQUAL
         else if n1 < n2 then PATH1_IS_PREFIX
         else PATH2_IS_PREFIX)"

text \<open>
  The same wording with the trailing \<open>/\<close> ignored on every non-empty path, the path
  \<open>/\<close> included (its trimmed length is 0).
\<close>

definition trimmed_length :: "string \<Rightarrow> nat" where
  "trimmed_length p = (if p \<noteq> [] \<and> last p = CHR ''/'' then length p - 1 else length p)"

definition trimmed_compare :: "string \<Rightarrow> string \<Rightarrow> Comparison" where
  "trimmed_compare p1 p2 =
     (let n1 = trimmed_length p1; n2 = trimmed_length p2;
          m = min n1 n2;
          longer = (if n1 < n2 then p2 else p1)
      in if \<not> ((byte_at longer m = CHR ''/'' \<or> byte_at longer m = NUL) \<and> take m p1 = take m p2)
         then PATHS_ARE_NOT_COMPARABLE
         else if n1 = n2 then PATHS_ARE_EQUAL
         else if n1 < n2 then PATH1_IS_PREFIX
         else PATH2_IS_PREFIX)"

text \<open>
  The joiner as the specification words it.  \<open>double_slash s\<close>: the string contains
  \<open>//\<close>.  \<open>join_two\<close>: a non-empty joined path and the next fragment are put
  together with exactly one \<open>/\<close> between them, after at most one \<open>/\<close> is taken from
  the end of the former and one from the start of the latter; \<open>joined\<close> does so from
  left to right.  \<open>fragments\<close> are the arguments that are not NULL.
\<close>

fun double_slash :: "string \<Rightarrow> bool" where
  "double_slash (a # b # s) = ((a = CHR ''/'' \<and> b = CHR ''/'') \<or> double_slash (b # s))"
| "double_slash s = False"

definition ends_with_slash :: "string \<Rightarrow> bool" where
  "ends_with_slash s = (s \<noteq> [] \<and> last s = CHR ''/'')"

definition starts_with_slash :: "string \<Rightarrow> bool" where
  "starts_with_slash s = (s \<noteq> [] \<and> hd s = CHR ''/'')"

definition join_two :: "string \<Rightarrow> string \<Rightarrow> string" where
  "join_two joined_path fragment =
     (if joined_path = [] then fragment
      else (if ends_with_slash joined_path then butlast joined_path else joined_path) @ ''/'' @
           (if starts_with_slash fragment then tl fragment else fragment))"

definition joined :: "string list \<Rightarrow> string" where
  "joined = foldl join_two []"

definition fragments :: "string option list \<Rightarrow> string list" where
  "fragments paths = map the (filter (\<lambda>path. path \<noteq> None) paths)"

text \<open>
  The helper \<open>foreach_fd\<close> as the specification words it, for a callback without
  effect: the entries whose link cannot be read (or does not name a path) are skipped,
  and the result is the first negative result of the callback, 0 when there is none.
\<close>

definition linked_paths ::
  "host \<Rightarrow> nat \<Rightarrow> bool \<Rightarrow> string \<Rightarrow> string list \<Rightarrow> (string \<times> string) list" where
  "linked_paths os PATH_MAX HAVE_READLINKAT proc_fd dirents =
     concat (map (\<lambda>d_name.
                    case read_fd_link os PATH_MAX HAVE_READLINKAT proc_fd d_name of
                      None \<Rightarrow> []
                    | Some path \<Rightarrow> if byte_at path 0 = CHR ''/'' then [(d_name, path)] else [])
                 dirents)"

definition first_negative :: "int list \<Rightarrow> int" where
  "first_negative results = (case filter (\<lambda>status. status < 0) results of [] \<Rightarrow> 0 | status # _ \<Rightarrow> status)"

section \<open>Facts about C strings\<close>

lemma NUL_not_slash: "NUL \<noteq> CHR ''/''" "CHR ''/'' \<noteq> NUL"
  by (simp_all add: NUL_def)

lemma byte_at_Nil: "byte_at [] i = NUL"
  by (simp add: byte_at_def)

lemma byte_at_Cons_0: "byte_at (c # s) 0 = c"
  by (simp add: byte_at_def)

lemma byte_at_Cons_Suc: "byte_at (c # s) (Suc i) = byte_at s i"
  by (simp add: byte_at_def)

lemma byte_at_length: "byte_at s (length s) = NUL"
  by (simp add: byte_at_def)

lemma byte_at_last: "s \<noteq> [] \<Longrightarrow> byte_at s (length s - 1) = last s"
  by (simp add: byte_at_def last_conv_nth)

lemma strncmp_sym: "(strncmp s1 s2 n = 0) = (strncmp s2 s1 n = 0)"
proof (induction n arbitrary: s1 s2)
  case 0
  show ?case by simp
next
  case (Suc n)
  show ?case
  proof (cases "byte_at s1 0 = byte_at s2 0")
    case True
    then show ?thesis using Suc.IH [of "tl s1" "tl s2"] by (simp add: Let_def)
  next
    case False
    then have "byte_at s2 0 \<noteq> byte_at s1 0" by simp
    with False show ?thesis by (simp add: Let_def)
  qed
qed

lemma strncmp_take:
  "cstring s1 \<Longrightarrow> cstring s2 \<Longrightarrow> (strncmp s1 s2 n = 0) = (take n s1 = take n s2)"
proof (induction n arbitrary: s1 s2)
  case 0
  show ?case by simp
next
  case (Suc n)
  show ?case
  proof (cases s1)
    case Nil
    then show ?thesis using Suc.prems
      by (cases s2) (auto simp: Let_def byte_at_Nil byte_at_Cons_0 cstring_def)
  next
    case (Cons a as)
    note s1 = Cons
    show ?thesis
    proof (cases s2)
      case Nil
      then show ?thesis using Suc.prems s1
        by (auto simp: Let_def byte_at_Nil byte_at_Cons_0 cstring_def)
    next
      case (Cons b bs)
      have "cstring as" "cstring bs" "a \<noteq> NUL"
        using Suc.prems s1 Cons by (auto simp: cstring_def)
      then show ?thesis using Suc.IH [of as bs] s1 Cons
        by (auto simp: Let_def byte_at_Cons_0)
    qed
  qed
qed

lemma byte_at_drop: "byte_at s i = byte_at (drop i s) 0"
  by (cases "i < length s") (simp_all add: byte_at_def)

lemma byte_at_0_NUL: "cstring s \<Longrightarrow> (byte_at s 0 = NUL) = (s = [])"
  by (cases s) (auto simp: byte_at_def cstring_def)

lemma byte_at_0_hd: "s \<noteq> [] \<Longrightarrow> byte_at s 0 = hd s"
  by (cases s) (auto simp: byte_at_def)

lemma drop_add_takeWhile:
  "drop (i + length (takeWhile P (drop i s))) s = dropWhile P (drop i s)"
proof -
  have "drop (i + length (takeWhile P (drop i s))) s = drop (length (takeWhile P (drop i s))) (drop i s)"
    by (simp add: add.commute)
  also have "\<dots> = dropWhile P (drop i s)"
    by (simp add: dropWhile_eq_drop)
  finally show ?thesis .
qed


lemma take_length_takeWhile: "take (length (takeWhile P xs)) xs = takeWhile P xs"
  by (induction xs) auto

lemma cstring_byte_at: "cstring s \<Longrightarrow> i < length s \<Longrightarrow> byte_at s i \<noteq> NUL"
  unfolding cstring_def byte_at_def by (metis nth_mem)

section \<open>The comparator: claims\<close>

lemma trimmed_length_code:
  "p \<noteq> [] \<Longrightarrow>
   (if byte_at p (length p - 1) = CHR ''/'' then length p - 1 else length p) = trimmed_length p"
  using byte_at_last [of p] by (auto simp: trimmed_length_def)

lemma compare_paths_by_length:
  assumes "p1 \<noteq> []" "p2 \<noteq> []"
  shows "compare_paths p1 p2 =
     (let n1 = trimmed_length p1; n2 = trimmed_length p2;
          m = (if n1 < n2 then n1 else n2);
          sentinel = (if n1 < n2 then byte_at p2 m else byte_at p1 m)
      in if sentinel \<noteq> CHR ''/'' \<and> sentinel \<noteq> NUL then Some PATHS_ARE_NOT_COMPARABLE
         else if strncmp p1 p2 m \<noteq> 0 then Some PATHS_ARE_NOT_COMPARABLE
         else if n1 = n2 then Some PATHS_ARE_EQUAL
         else if n1 < n2 then Some PATH1_IS_PREFIX
         else Some PATH2_IS_PREFIX)"
proof -
  have l: "0 < length p1" "0 < length p2" using assms by simp_all
  show ?thesis
    unfolding compare_paths_def compare_paths2_def
    using l
    by (simp only: trimmed_length_code [OF assms(1)] trimmed_length_code [OF assms(2)]
          Let_def if_True if_False not_True_eq_False simp_thms) auto
qed

lemma own_sentinel:
  "byte_at p (trimmed_length p) = CHR ''/'' \<or> byte_at p (trimmed_length p) = NUL"
proof (cases "p \<noteq> [] \<and> last p = CHR ''/''")
  case True
  then show ?thesis using byte_at_last [of p] by (simp add: trimmed_length_def)
next
  case False
  then have "trimmed_length p = length p" by (auto simp: trimmed_length_def)
  then show ?thesis by (simp add: byte_at_length)
qed

lemma compare_paths_nonempty:
  "p1 \<noteq> [] \<Longrightarrow> p2 \<noteq> [] \<Longrightarrow> compare_paths p1 p2 \<noteq> None"
  by (simp add: compare_paths_by_length Let_def)

text \<open>
  Claim C1, as the specification states it, fails: the comparator drops the trailing
  \<open>/\<close> of the path \<open>/\<close> too, so that \<open>/\<close> is a prefix of \<open>/foo\<close>, where the
  specification's wording (the sole character is kept) gives a path that is not
  comparable.
\<close>

theorem compare_paths_root_counterexample:
  "compare_paths ''/'' ''/foo'' = Some PATH1_IS_PREFIX \<and>
   spec_compare ''/'' ''/foo'' = PATHS_ARE_NOT_COMPARABLE"
  by (simp add: compare_paths_def compare_paths2_def spec_compare_def spec_trimmed_length_def
      byte_at_def NUL_def Let_def)

text \<open>
  Claim C1, amended: for non-empty C strings \<open>p1\<close> and \<open>p2\<close>, one trailing \<open>/\<close> is
  ignored on each side, also when it is the sole character (the trimmed length of \<open>/\<close>
  is 0).  With \<open>m\<close> the smaller trimmed length, the result is
  \<open>PATHS_ARE_NOT_COMPARABLE\<close> unless the byte at position \<open>m\<close> of the longer string
  is \<open>/\<close> or NUL and the first \<open>m\<close> bytes of both are equal; otherwise it is
  \<open>PATHS_ARE_EQUAL\<close> for equal trimmed lengths, \<open>PATH1_IS_PREFIX\<close> when \<open>p1\<close> is
  shorter and \<open>PATH2_IS_PREFIX\<close> when \<open>p2\<close> is.  In particular \<open>/foo\<close> and
  \<open>/foobar\<close> are not comparable.
\<close>

theorem compare_paths_trimmed:
  assumes "p1 \<noteq> []" "p2 \<noteq> []" "cstring p1" "cstring p2"
  shows "compare_paths p1 p2 = Some (trimmed_compare p1 p2) \<and>
         compare_paths ''/foo'' ''/foobar'' = Some PATHS_ARE_NOT_COMPARABLE"
proof -
  have s: "\<And>m. (strncmp p1 p2 m \<noteq> 0) = (take m p1 \<noteq> take m p2)"
    using strncmp_take [OF assms(3,4)] by simp
  have "compare_paths p1 p2 = Some (trimmed_compare p1 p2)"
    unfolding compare_paths_by_length [OF assms(1,2)] trimmed_compare_def Let_def s min_def
    by (cases "trimmed_length p1 < trimmed_length p2") auto
  moreover have "compare_paths ''/foo'' ''/foobar'' = Some PATHS_ARE_NOT_COMPARABLE"
    by (simp add: compare_paths_def compare_paths2_def byte_at_def NUL_def Let_def)
  ultimately show ?thesis by simp
qed

theorem compare_paths_trimmed_witness:
  "compare_paths ''/jail'' ''/jail/home/'' = Some (trimmed_compare ''/jail'' ''/jail/home/'') \<and>
   trimmed_compare ''/jail'' ''/jail/home/'' = PATH1_IS_PREFIX \<and>
   cstring ''/jail'' \<and> cstring ''/jail/home/''"
proof -
  have c: "cstring ''/jail''" "cstring ''/jail/home/''"
    by (simp_all add: cstring_def NUL_def)
  have t: "trimmed_compare ''/jail'' ''/jail/home/'' = PATH1_IS_PREFIX"
    by (simp add: trimmed_compare_def trimmed_length_def byte_at_def Let_def)
  show ?thesis
    using compare_paths_trimmed [of "''/jail''" "''/jail/home/''", OF _ _ c] c t by simp
qed

text \<open>
  Claim C6: the comparator is symmetric up to swapping the prefix tags.  For every pair
  of paths \<open>a\<close> and \<open>b\<close>, \<open>compare_paths a b\<close> is \<open>PATHS_ARE_EQUAL\<close> if and only if
  \<open>compare_paths b a\<close> is, and \<open>compare_paths a b\<close> is \<open>PATH1_IS_PREFIX\<close> if and only
  if \<open>compare_paths b a\<close> is \<open>PATH2_IS_PREFIX\<close>.  (For an empty path both calls fail
  their assertion.)
\<close>

theorem compare_paths_symmetric:
  "(compare_paths a b = Some PATHS_ARE_EQUAL) = (compare_paths b a = Some PATHS_ARE_EQUAL) \<and>
   (compare_paths a b = Some PATH1_IS_PREFIX) = (compare_paths b a = Some PATH2_IS_PREFIX)"
proof (cases "a \<noteq> [] \<and> b \<noteq> []")
  case False
  then show ?thesis by (auto simp: compare_paths_def compare_paths2_def)
next
  case True
  then have ab: "a \<noteq> []" "b \<noteq> []" by simp_all
  have s: "\<And>m. (strncmp b a m = 0) = (strncmp a b m = 0)" by (rule strncmp_sym)
  consider (lt) "trimmed_length a < trimmed_length b"
    | (eq) "trimmed_length a = trimmed_length b"
    | (gt) "trimmed_length b < trimmed_length a" by linarith
  then show ?thesis
  proof cases
    case lt
    then show ?thesis
      unfolding compare_paths_by_length [OF ab] compare_paths_by_length [OF ab(2,1)] Let_def s
      by auto
  next
    case eq
    then show ?thesis
      unfolding compare_paths_by_length [OF ab] compare_paths_by_length [OF ab(2,1)] Let_def s
      using own_sentinel [of a] own_sentinel [of b] by auto
  next
    case gt
    then show ?thesis
      unfolding compare_paths_by_length [OF ab] compare_paths_by_length [OF ab(2,1)] Let_def s
      by auto
  qed
qed

section \<open>The path lexer: claims\<close>

lemma skip_separators_eq:
  "skip_separators path i = i + length (takeWhile (\<lambda>c. c = CHR ''/'') (drop i path))"
proof (induction path i rule: skip_separators.induct)
  case (1 path cursor)
  show ?case
  proof (cases "cursor < length path \<and> path ! cursor = CHR ''/''")
    case True
    then have d: "drop cursor path = CHR ''/'' # drop (Suc cursor) path"
      by (metis Cons_nth_drop_Suc)
    from True have c: "byte_at path cursor \<noteq> NUL \<and> byte_at path cursor = CHR ''/''"
      by (simp add: byte_at_def NUL_def)
    show ?thesis
      using "1.IH" [OF c] c d by (subst skip_separators.simps) (simp add: NUL_not_slash)
  next
    case False
    then have c: "\<not> (byte_at path cursor \<noteq> NUL \<and> byte_at path cursor = CHR ''/'')"
      by (auto simp: byte_at_def)
    have "takeWhile (\<lambda>c. c = CHR ''/'') (drop cursor path) = []"
      using False by (cases "cursor < length path") (auto simp: takeWhile_eq_Nil_iff hd_drop_conv_nth)
    then show ?thesis using c by (subst skip_separators.simps) auto
  qed
qed

lemma find_separator_eq:
  "cstring path \<Longrightarrow>
   find_separator path i = i + length (takeWhile (\<lambda>c. c \<noteq> CHR ''/'') (drop i path))"
proof (induction path i rule: find_separator.induct)
  case (1 path cursor)
  have nn: "\<And>k. k < length path \<Longrightarrow> path ! k \<noteq> NUL"
    using "1.prems" by (metis nth_mem cstring_def)
  show ?case
  proof (cases "cursor < length path \<and> path ! cursor \<noteq> CHR ''/''")
    case True
    then have d: "drop cursor path = path ! cursor # drop (Suc cursor) path"
      by (metis Cons_nth_drop_Suc)
    from True nn have c: "byte_at path cursor \<noteq> NUL \<and> byte_at path cursor \<noteq> CHR ''/''"
      by (simp add: byte_at_def)
    show ?thesis
      using "1.IH" [OF c "1.prems"] c d True by (subst find_separator.simps) simp
  next
    case False
    then have c: "\<not> (byte_at path cursor \<noteq> NUL \<and> byte_at path cursor \<noteq> CHR ''/'')"
      by (auto simp: byte_at_def)
    have "takeWhile (\<lambda>c. c \<noteq> CHR ''/'') (drop cursor path) = []"
      using False by (cases "cursor < length path") (auto simp: takeWhile_eq_Nil_iff hd_drop_conv_nth)
    then show ?thesis using c by (subst find_separator.simps) auto
  qed
qed

lemma next_component_lists:
  assumes "cstring path" "cursor \<le> length path"
  shows "next_component NAME_MAX component path cursor =
     (let rest = dropWhile (\<lambda>c. c = CHR ''/'') (drop cursor path);
          name = takeWhile (\<lambda>c. c \<noteq> CHR ''/'') rest;
          after = dropWhile (\<lambda>c. c \<noteq> CHR ''/'') rest;
          remaining = dropWhile (\<lambda>c. c = CHR ''/'') after
      in if length name \<ge> NAME_MAX then (Inl ENAMETOOLONG, component, length path - length after)
         else (Inr (if remaining \<noteq> [] then NOT_FINAL
                    else if after \<noteq> [] then FINAL_SLASH else FINAL_NORMAL),
               name, length path - length remaining))"
proof -
  define c1 where "c1 = skip_separators path cursor"
  define c2 where "c2 = find_separator path c1"
  define c3 where "c3 = skip_separators path c2"
  define rest where "rest = dropWhile (\<lambda>c. c = CHR ''/'') (drop cursor path)"
  define name where "name = takeWhile (\<lambda>c. c \<noteq> CHR ''/'') rest"
  define after where "after = dropWhile (\<lambda>c. c \<noteq> CHR ''/'') rest"
  define remaining where "remaining = dropWhile (\<lambda>c. c = CHR ''/'') after"
  have c1: "c1 = cursor + length (takeWhile (\<lambda>c. c = CHR ''/'') (drop cursor path))"
    by (simp add: c1_def skip_separators_eq)
  have d1: "drop c1 path = rest"
    unfolding c1 rest_def by (rule drop_add_takeWhile)
  have c2: "c2 = c1 + length name"
    using find_separator_eq [OF assms(1), of c1] by (simp add: c2_def name_def d1)
  have d2: "drop c2 path = after"
    using drop_add_takeWhile [of c1 "\<lambda>c. c \<noteq> CHR ''/''" path]
    by (simp add: c2 name_def after_def d1)
  have c3: "c3 = c2 + length (takeWhile (\<lambda>c. c = CHR ''/'') after)"
    by (simp add: c3_def skip_separators_eq d2)
  have d3: "drop c3 path = remaining"
    using drop_add_takeWhile [of c2 "\<lambda>c. c = CHR ''/''" path]
    by (simp add: c3 remaining_def d2)
  have le1: "c1 \<le> length path"
  proof -
    have "length (takeWhile (\<lambda>c. c = CHR ''/'') (drop cursor path)) \<le> length (drop cursor path)"
      by (rule length_takeWhile_le)
    then show ?thesis using assms(2) by (simp add: c1)
  qed
  have le2: "c2 \<le> length path"
  proof -
    have "length name \<le> length rest" unfolding name_def by (rule length_takeWhile_le)
    then show ?thesis using le1 d1 [symmetric] by (simp add: c2)
  qed
  have le3: "c3 \<le> length path"
  proof -
    have "length (takeWhile (\<lambda>c. c = CHR ''/'') after) \<le> length after"
      by (rule length_takeWhile_le)
    then show ?thesis using le2 d2 [symmetric] by (simp add: c3)
  qed
  have "length after = length path - c2" using d2 [symmetric] by simp
  then have p2: "c2 = length path - length after" using le2 by simp
  have "length remaining = length path - c3" using d3 [symmetric] by simp
  then have p3: "c3 = length path - length remaining" using le3 by simp
  have len: "c2 - c1 = length name" by (simp add: c2)
  have comp: "take (length name) (drop c1 path) = name"
    unfolding d1 name_def by (rule take_length_takeWhile)
  have cs_rem: "cstring remaining"
    using assms(1) d3 by (auto simp: cstring_def dest: in_set_dropD)
  have want: "(byte_at path c2 = CHR ''/'') = (after \<noteq> [])"
  proof (cases after)
    case Nil
    then show ?thesis using byte_at_drop [of path c2] d2 by (simp add: byte_at_Nil NUL_not_slash)
  next
    case (Cons a as)
    have "\<not> (\<lambda>c. c \<noteq> CHR ''/'') (hd (dropWhile (\<lambda>c. c \<noteq> CHR ''/'') rest))"
      using Cons hd_dropWhile [of "\<lambda>c. c \<noteq> CHR ''/''" rest] unfolding after_def by simp
    then have "a = CHR ''/''" using Cons by (simp add: after_def)
    then show ?thesis using Cons byte_at_drop [of path c2] d2 by (simp add: byte_at_Cons_0)
  qed
  have fin: "(byte_at path c3 = NUL) = (remaining = [])"
    using byte_at_drop [of path c3] d3 byte_at_0_NUL [OF cs_rem] by simp
  have rem_after: "after = [] \<Longrightarrow> remaining = []"
    by (simp add: remaining_def)
  have unf: "next_component NAME_MAX component path cursor =
      (if c2 - c1 \<ge> NAME_MAX then (Inl ENAMETOOLONG, component, c2)
       else if byte_at path c3 = NUL
            then (if byte_at path c2 = CHR ''/'' then Inr FINAL_SLASH else Inr FINAL_NORMAL,
                  take (c2 - c1) (drop c1 path), c3)
            else (Inr NOT_FINAL, take (c2 - c1) (drop c1 path), c3))"
    by (simp add: next_component_def Let_def c1_def c2_def c3_def)
  have "next_component NAME_MAX component path cursor =
       (if length name \<ge> NAME_MAX then (Inl ENAMETOOLONG, component, length path - length after)
         else (Inr (if remaining \<noteq> [] then NOT_FINAL
                    else if after \<noteq> [] then FINAL_SLASH else FINAL_NORMAL),
               name, length path - length remaining))"
    unfolding unf len comp want fin
    using rem_after p2 p3 by auto
  then show ?thesis
    unfolding Let_def rest_def name_def after_def remaining_def .
qed

text \<open>
  Claim C5: for a C string \<open>path\<close> and a cursor inside it, let \<open>name\<close> be the
  bytes after the leading separators up to the next \<open>/\<close> or the end (the extracted
  component), \<open>after\<close> what follows it (its trailing slashes and the rest) and
  \<open>remaining\<close> what follows those trailing slashes.  \<open>next_component\<close> fails with
  \<open>ENAMETOOLONG\<close> exactly when \<open>name\<close> has \<open>NAME_MAX\<close> bytes or more; otherwise it
  returns \<open>NOT_FINAL\<close> when characters remain after the trailing slashes,
  \<open>FINAL_SLASH\<close> when the input ends right after a trailing slash and \<open>FINAL_NORMAL\<close>
  when it ends with no trailing slash, with \<open>name\<close> in the component buffer and the
  cursor at \<open>remaining\<close>.
\<close>

theorem next_component_finality:
  assumes "cstring path" "cursor \<le> length path"
  shows
    "(let rest = dropWhile (\<lambda>c. c = CHR ''/'') (drop cursor path);
          name = takeWhile (\<lambda>c. c \<noteq> CHR ''/'') rest;
          after = dropWhile (\<lambda>c. c \<noteq> CHR ''/'') rest;
          remaining = dropWhile (\<lambda>c. c = CHR ''/'') after
      in ((fst (next_component NAME_MAX component path cursor) = Inl ENAMETOOLONG) =
            (length name \<ge> NAME_MAX)) \<and>
         (length name < NAME_MAX \<longrightarrow>
            next_component NAME_MAX component path cursor =
              (Inr (if remaining \<noteq> [] then NOT_FINAL
                    else if after \<noteq> [] then FINAL_SLASH else FINAL_NORMAL),
               name, length path - length remaining)))"
proof -
  define rest where "rest = dropWhile (\<lambda>c. c = CHR ''/'') (drop cursor path)"
  define name where "name = takeWhile (\<lambda>c. c \<noteq> CHR ''/'') rest"
  define after where "after = dropWhile (\<lambda>c. c \<noteq> CHR ''/'') rest"
  define remaining where "remaining = dropWhile (\<lambda>c. c = CHR ''/'') after"
  have nc: "next_component NAME_MAX component path cursor =
     (if length name \<ge> NAME_MAX then (Inl ENAMETOOLONG, component, length path - length after)
         else (Inr (if remaining \<noteq> [] then NOT_FINAL
                    else if after \<noteq> [] then FINAL_SLASH else FINAL_NORMAL),
               name, length path - length remaining))"
    unfolding next_component_lists [OF assms] Let_def rest_def name_def after_def remaining_def ..
  have "((fst (next_component NAME_MAX component path cursor) = Inl ENAMETOOLONG) =
            (length name \<ge> NAME_MAX)) \<and>
         (length name < NAME_MAX \<longrightarrow>
            next_component NAME_MAX component path cursor =
              (Inr (if remaining \<noteq> [] then NOT_FINAL
                    else if after \<noteq> [] then FINAL_SLASH else FINAL_NORMAL),
               name, length path - length remaining))"
    unfolding nc by (cases "length name \<ge> NAME_MAX") simp_all
  then show ?thesis
    unfolding Let_def rest_def name_def after_def remaining_def .
qed

theorem next_component_finality_witness:
  "cstring ''/usr//bin/'' \<and>
   next_component 255 [] ''/usr//bin/'' 0 = (Inr NOT_FINAL, ''usr'', 6) \<and>
   next_component 255 [] ''/usr//bin/'' 6 = (Inr FINAL_SLASH, ''bin'', 10) \<and>
   next_component 255 [] ''/usr//bin'' 6 = (Inr FINAL_NORMAL, ''bin'', 9) \<and>
   fst (next_component 3 [] ''/usr//bin/'' 0) = Inl ENAMETOOLONG"
proof -
  have c: "cstring ''/usr//bin/''" "cstring ''/usr//bin''"
    by (simp_all add: cstring_def NUL_def)
  have a: "next_component 255 [] ''/usr//bin/'' 0 = (Inr NOT_FINAL, ''usr'', 6)"
    using next_component_finality [OF c(1), of 0 255 "[]"] by (simp add: Let_def)
  have b: "next_component 255 [] ''/usr//bin/'' 6 = (Inr FINAL_SLASH, ''bin'', 10)"
    using next_component_finality [OF c(1), of 6 255 "[]"] by (simp add: Let_def)
  have d: "next_component 255 [] ''/usr//bin'' 6 = (Inr FINAL_NORMAL, ''bin'', 9)"
    using next_component_finality [OF c(2), of 6 255 "[]"] by (simp add: Let_def)
  have e: "fst (next_component 3 [] ''/usr//bin/'' 0) = Inl ENAMETOOLONG"
    using next_component_finality [OF c(1), of 0 3 "[]"] by (simp add: Let_def)
  show ?thesis using c a b d e by simp
qed

text \<open>
  Claim C10: for an input that is empty or consists solely of \<open>/\<close> characters (and a
  cursor inside it), \<open>next_component\<close> returns \<open>FINAL_NORMAL\<close>, not \<open>FINAL_SLASH\<close>, with
  an empty component buffer and the cursor at the end of the input: the slashes are
  consumed as leading separators.  (\<open>NAME_MAX\<close> is positive.)
\<close>

theorem next_component_only_separators:
  assumes "set path \<subseteq> {CHR ''/''}" "cursor \<le> length path" "0 < NAME_MAX"
  shows "next_component NAME_MAX component path cursor = (Inr FINAL_NORMAL, [], length path)"
proof -
  have c: "cstring path"
    using assms(1) NUL_not_slash by (auto simp: cstring_def)
  have "\<forall>x \<in> set (drop cursor path). x = CHR ''/''"
    using assms(1) by (auto dest: in_set_dropD)
  then have r: "dropWhile (\<lambda>c. c = CHR ''/'') (drop cursor path) = []"
    by simp
  show ?thesis
    unfolding next_component_lists [OF c assms(2)] Let_def r
    using assms(3) by simp
qed

theorem next_component_only_separators_witness:
  "next_component 255 ''old'' ''/'' 0 = (Inr FINAL_NORMAL, [], 1) \<and>
   next_component 255 ''old'' [] 0 = (Inr FINAL_NORMAL, [], 0) \<and>
   next_component 255 ''old'' ''///'' 0 = (Inr FINAL_NORMAL, [], 3)"
  using next_component_only_separators [of "''/''" 0 255 "''old''"]
    next_component_only_separators [of "[]" 0 255 "''old''"]
    next_component_only_separators [of "''///''" 0 255 "''old''"]
  by simp

section \<open>Popping the last component: claims\<close>

lemma pop_skip_separators_bounds:
  "1 \<le> offset \<Longrightarrow>
   1 \<le> pop_skip_separators path offset \<and> pop_skip_separators path offset \<le> offset"
proof (induction path offset rule: pop_skip_separators.induct)
  case (1 path offset)
  show ?case
  proof (cases "offset > 1 \<and> byte_at path (nat offset) = CHR ''/''")
    case True
    then have "1 \<le> offset - 1" by simp
    from "1.IH" [OF True this] True show ?thesis
      by (subst (1 2) pop_skip_separators.simps) simp
  next
    case False
    with "1.prems" show ?thesis
      by (subst (1 2) pop_skip_separators.simps) auto
  qed
qed

lemma pop_find_separator_bounds:
  "1 \<le> offset \<Longrightarrow>
   1 \<le> pop_find_separator path offset \<and> pop_find_separator path offset \<le> offset"
proof (induction path offset rule: pop_find_separator.induct)
  case (1 path offset)
  show ?case
  proof (cases "offset > 1 \<and> byte_at path (nat offset) \<noteq> CHR ''/''")
    case True
    then have "1 \<le> offset - 1" by simp
    from "1.IH" [OF True this] True show ?thesis
      by (subst (1 2) pop_find_separator.simps) simp
  next
    case False
    with "1.prems" show ?thesis
      by (subst (1 2) pop_find_separator.simps) auto
  qed
qed

text \<open>
  Claim C8: for every C string whose first byte is \<open>/\<close>, \<open>pop_component\<close> passes its
  assertions and leaves in the buffer a non-empty string whose first byte is \<open>/\<close>, a
  prefix of the string it was given: the buffer is never emptied and the leading root
  is never removed.  The one-byte path \<open>/\<close> is left unchanged.
\<close>

theorem pop_component_keeps_root:
  assumes first: "byte_at path 0 = CHR ''/''"
  shows "(\<exists>popped. pop_component path = Some popped \<and> popped \<noteq> [] \<and>
            byte_at popped 0 = CHR ''/'' \<and> take (length popped) path = popped) \<and>
         pop_component ''/'' = Some ''/''"
proof -
  have "path \<noteq> []" using first NUL_not_slash by (auto simp: byte_at_Nil)
  note assms = this first
  have root: "pop_component ''/'' = Some ''/''"
    by (simp add: pop_component_def byte_at_def)
  have "\<exists>popped. pop_component path = Some popped \<and> popped \<noteq> [] \<and>
            byte_at popped 0 = CHR ''/'' \<and> take (length popped) path = popped"
  proof (cases "length path = 1")
    case True
    then have "byte_at path 1 = NUL" by (simp add: byte_at_def)
    with True assms have "pop_component path = Some path"
      by (simp add: pop_component_def)
    with assms show ?thesis by simp
  next
    case False
    have "length path \<noteq> 0" using assms(1) by simp
    with False have "2 \<le> length path" by linarith
    then have l: "int (length path) - 1 \<ge> 1" by simp
    define o1 where "o1 = pop_skip_separators path (int (length path) - 1)"
    define o2 where "o2 = pop_find_separator path o1"
    have b1: "1 \<le> o1" "o1 \<le> int (length path) - 1"
      using pop_skip_separators_bounds [OF l, of path] by (simp_all add: o1_def)
    have b2: "1 \<le> o2" "o2 \<le> o1"
      using pop_find_separator_bounds [OF b1(1), of path] by (simp_all add: o2_def)
    have n: "0 < nat o2" "nat o2 \<le> length path" using b1 b2 by simp_all
    have t0: "byte_at (take (nat o2) path) 0 = CHR ''/''"
      using n assms by (simp add: byte_at_def)
    have "pop_component path = Some (take (nat o2) path)"
      using l t0 assms(1) by (simp add: pop_component_def Let_def o1_def [symmetric] o2_def [symmetric])
    moreover have "take (nat o2) path \<noteq> []" using n assms(1) by simp
    moreover have "take (length (take (nat o2) path)) path = take (nat o2) path"
      using n by simp
    ultimately show ?thesis using t0 by simp
  qed
  with root show ?thesis by simp
qed

theorem pop_component_keeps_root_witness: "pop_component ''/usr/bin/'' = Some ''/usr'' \<and> pop_component ''/usr'' = Some ''/''"
proof -
  have a: "pop_component ''/usr/bin/'' = Some ''/usr''" by code_simp
  have b: "pop_component ''/usr'' = Some ''/''" by code_simp
  show ?thesis
    using pop_component_keeps_root [of "''/usr/bin/''"] a b by (simp add: byte_at_def)
qed

section \<open>The path joiner: claims\<close>

lemma byte_at_0_slash: "(byte_at s 0 = CHR ''/'') = starts_with_slash s"
  by (cases s) (auto simp: byte_at_def starts_with_slash_def NUL_not_slash)

lemma byte_at_last_slash:
  "0 < length s \<Longrightarrow> (byte_at s (length s - 1) = CHR ''/'') = ends_with_slash s"
  using byte_at_last [of s] by (auto simp: ends_with_slash_def)

lemma nat_int_sums:
  "nat (int a + int b) = a + b"
  "nat (int a + (int b + 1)) = Suc (a + b)"
  by linarith+

lemma join_paths_loop_Some:
  "join_paths_loop PATH_MAX (Some path # paths) result (length result) =
     (if length (join_two result path) \<ge> PATH_MAX then (Inl ENAMETOOLONG, result)
      else join_paths_loop PATH_MAX paths (join_two result path) (length (join_two result path)))"
proof (cases "result = []")
  case True
  then show ?thesis by (simp add: join_two_def strcat_at_def)
next
  case False
  then have l: "0 < length result" by simp
  have bl: "butlast result @ ''/'' = result" if "ends_with_slash result"
    using that append_butlast_last_id [of result] by (simp add: ends_with_slash_def)
  have c1: "(byte_at result (length result - 1) = CHR ''/'') = ends_with_slash result"
    using byte_at_last_slash [OF l] .
  have c2: "(byte_at path 0 = CHR ''/'') = starts_with_slash path"
    by (rule byte_at_0_slash)
  show ?thesis
  proof (cases "ends_with_slash result")
    case e: True
    show ?thesis
    proof (cases "starts_with_slash path")
      case True
      have j: "join_two result path = result @ tl path"
        using False e True bl by (simp add: join_two_def)
      have n: "nat (int (length result) + (int (length path) - 1)) = length result + (length path - 1)"
        using True by (cases path) (simp_all add: starts_with_slash_def)
      have "join_paths_loop PATH_MAX (Some path # paths) result (length result) =
          (if length (result @ tl path) \<ge> PATH_MAX then (Inl ENAMETOOLONG, result)
           else join_paths_loop PATH_MAX paths (result @ tl path) (length (result @ tl path)))"
        unfolding join_paths_loop.simps Let_def c1 c2
        using l e True n by (simp add: strcat_at_def nat_int_sums)
      then show ?thesis unfolding j .
    next
      case s: False
      have j: "join_two result path = result @ path"
        using False e s bl by (simp add: join_two_def)
      show ?thesis
        unfolding j join_paths_loop.simps Let_def c1 c2
        using l e s by (simp add: strcat_at_def nat_int_sums)
    qed
  next
    case e: False
    show ?thesis
    proof (cases "starts_with_slash path")
      case True
      then have "path = CHR ''/'' # tl path"
        by (cases path) (auto simp: starts_with_slash_def)
      then have "''/'' @ tl path = path" by simp
      then have j: "join_two result path = result @ path"
        using False e True by (simp add: join_two_def)
      show ?thesis
        unfolding j join_paths_loop.simps Let_def c1 c2
        using l e True by (simp add: strcat_at_def nat_int_sums)
    next
      case s: False
      have j: "join_two result path = result @ ''/'' @ path"
        using False e s by (simp add: join_two_def)
      show ?thesis
        unfolding j join_paths_loop.simps Let_def c1 c2
        using l e s by (simp add: strcat_at_def nat_int_sums)
    qed
  qed
qed


lemma length_join_two: "length result \<le> length (join_two result path)"
proof (cases "ends_with_slash result")
  case True
  then have "length (butlast result) + 1 = length result"
    by (simp add: ends_with_slash_def)
  then show ?thesis by (simp add: join_two_def)
next
  case False
  then show ?thesis by (simp add: join_two_def)
qed

lemma length_foldl_join_two: "length result \<le> length (foldl join_two result ps)"
proof (induction ps arbitrary: result)
  case Nil
  show ?case by simp
next
  case (Cons p ps)
  have "length result \<le> length (join_two result p)" by (rule length_join_two)
  also have "\<dots> \<le> length (foldl join_two (join_two result p) ps)" by (rule Cons.IH)
  finally show ?case by simp
qed

lemma join_paths_loop_joined:
  "length (foldl join_two result (fragments paths)) < PATH_MAX \<Longrightarrow>
   join_paths_loop PATH_MAX paths result (length result) =
     (Inr 0, foldl join_two result (fragments paths))"
proof (induction paths arbitrary: result)
  case Nil
  show ?case by (simp add: fragments_def)
next
  case (Cons p paths)
  show ?case
  proof (cases p)
    case None
    then have f: "fragments (p # paths) = fragments paths" by (simp add: fragments_def)
    show ?thesis using Cons.IH [of result] Cons.prems None unfolding f by simp
  next
    case (Some path)
    have f: "fragments (Some path # paths) = path # fragments paths" by (simp add: fragments_def)
    have b: "length (foldl join_two (join_two result path) (fragments paths)) < PATH_MAX"
      using Cons.prems unfolding Some f by simp
    have "length (join_two result path) \<le> length (foldl join_two (join_two result path) (fragments paths))"
      by (rule length_foldl_join_two)
    with b have ok: "\<not> length (join_two result path) \<ge> PATH_MAX" by simp
    show ?thesis
      unfolding Some f join_paths_loop_Some using ok Cons.IH [OF b] by simp
  qed
qed

lemma double_slash_Cons:
  "double_slash (a # s) = ((a = CHR ''/'' \<and> starts_with_slash s) \<or> double_slash s)"
  by (cases s) (auto simp: starts_with_slash_def)

lemma double_slash_append:
  "double_slash (xs @ ys) =
     (double_slash xs \<or> double_slash ys \<or> (ends_with_slash xs \<and> starts_with_slash ys))"
proof (induction xs)
  case Nil
  show ?case by (simp add: ends_with_slash_def)
next
  case (Cons a xs)
  show ?case
  proof (cases xs)
    case Nil
    then show ?thesis
      by (auto simp: double_slash_Cons ends_with_slash_def starts_with_slash_def)
  next
    case (Cons b bs)
    then have "starts_with_slash (xs @ ys) = starts_with_slash xs"
      by (simp add: starts_with_slash_def)
    moreover have "ends_with_slash (a # xs) = ends_with_slash xs"
      using Cons by (simp add: ends_with_slash_def)
    ultimately show ?thesis
      using Cons.IH by (auto simp: double_slash_Cons)
  qed
qed

lemma no_double_slash_butlast:
  assumes "\<not> double_slash s" "ends_with_slash s"
  shows "\<not> double_slash (butlast s) \<and> \<not> ends_with_slash (butlast s)"
proof -
  have "s = butlast s @ ''/''"
    using assms(2) append_butlast_last_id [of s] by (simp add: ends_with_slash_def)
  then have "\<not> double_slash (butlast s @ ''/'')" using assms(1) by simp
  then show ?thesis by (simp add: double_slash_append starts_with_slash_def)
qed

lemma no_double_slash_tl:
  assumes "\<not> double_slash s" "starts_with_slash s"
  shows "\<not> double_slash (tl s) \<and> \<not> starts_with_slash (tl s)"
proof -
  have "s = CHR ''/'' # tl s"
    using assms(2) by (cases s) (auto simp: starts_with_slash_def)
  then have "\<not> double_slash (CHR ''/'' # tl s)" using assms(1) by simp
  then show ?thesis by (simp add: double_slash_Cons)
qed

lemma no_double_slash_join_two:
  assumes "\<not> double_slash result" "\<not> double_slash path"
  shows "\<not> double_slash (join_two result path)"
proof (cases "result = []")
  case True
  then show ?thesis using assms(2) by (simp add: join_two_def)
next
  case False
  define a where "a = (if ends_with_slash result then butlast result else result)"
  define b where "b = (if starts_with_slash path then tl path else path)"
  have a: "\<not> double_slash a \<and> \<not> ends_with_slash a"
    using assms(1) no_double_slash_butlast [of result] by (simp add: a_def)
  have b: "\<not> double_slash b \<and> \<not> starts_with_slash b"
    using assms(2) no_double_slash_tl [of path] by (simp add: b_def)
  have "join_two result path = a @ (CHR ''/'' # b)"
    using False by (simp add: join_two_def a_def b_def)
  then show ?thesis
    using a b by (simp add: double_slash_append double_slash_Cons)
qed

lemma no_double_slash_foldl:
  "\<not> double_slash result \<Longrightarrow> \<forall>p \<in> set ps. \<not> double_slash p \<Longrightarrow>
   \<not> double_slash (foldl join_two result ps)"
proof (induction ps arbitrary: result)
  case Nil
  then show ?case by simp
next
  case (Cons p ps)
  have "\<not> double_slash (join_two result p)"
    using Cons.prems by (intro no_double_slash_join_two) simp_all
  then show ?case using Cons.IH [of "join_two result p"] Cons.prems by simp
qed

lemma ends_with_slash_join_two:
  "ends_with_slash (join_two a b) = (ends_with_slash b \<or> (b = [] \<and> a \<noteq> []))"
proof (cases "a = []")
  case True
  then show ?thesis by (simp add: join_two_def ends_with_slash_def)
next
  case False
  show ?thesis
  proof (cases "starts_with_slash b")
    case True
    then obtain bs where b: "b = CHR ''/'' # bs"
      by (cases b) (auto simp: starts_with_slash_def)
    show ?thesis using False True unfolding b
      by (cases "bs = []") (simp_all add: join_two_def ends_with_slash_def)
  next
    case False
    then show ?thesis using \<open>a \<noteq> []\<close>
      by (cases "b = []") (simp_all add: join_two_def ends_with_slash_def)
  qed
qed


text \<open>
  Claim C3, as the specification states it, fails: the joiner looks only at the two
  bytes that meet.  A fragment that ends with \<open>/\<close> leaves the result ending with
  \<open>/\<close>, and a \<open>//\<close> inside a fragment stays in the result.
\<close>

theorem join_paths_slashes_counterexample:
  "join_paths 4096 [Some ''a'', Some ''b/''] = (Inr 0, ''a/b/'') \<and>
   ends_with_slash ''a/b/'' \<and>
   join_paths 4096 [Some ''a//b'', Some ''c''] = (Inr 0, ''a//b/c'') \<and>
   double_slash ''a//b/c''"
  by (simp add: join_paths_def strcat_at_def byte_at_def ends_with_slash_def Let_def)

text \<open>
  Claim C3, amended: for fragments \<open>a\<close> and \<open>b\<close> whose joined length is below
  \<open>PATH_MAX\<close>, \<open>join_paths\<close> returns 0 and the buffer holds \<open>a\<close> and \<open>b\<close> with
  exactly one \<open>/\<close> between them, after at most one \<open>/\<close> is taken from the end of
  \<open>a\<close> and one from the start of \<open>b\<close> (for an empty \<open>a\<close> the buffer holds \<open>b\<close>);
  the buffer contains no \<open>//\<close> when neither \<open>a\<close> nor \<open>b\<close> does, and it ends with
  \<open>/\<close> exactly when \<open>b\<close> ends with \<open>/\<close>, or \<open>b\<close> is empty and \<open>a\<close> is not.
  More generally, for any number of fragments (NULL ones are skipped) whose joined
  length is below \<open>PATH_MAX\<close>, the buffer holds the fragments joined so from left to
  right, and it contains no \<open>//\<close> when no fragment does.
\<close>

theorem join_paths_joined:
  "(length (join_two a b) < PATH_MAX \<longrightarrow>
      join_paths PATH_MAX [Some a, Some b] = (Inr 0, join_two a b) \<and>
      (\<not> double_slash a \<and> \<not> double_slash b \<longrightarrow> \<not> double_slash (join_two a b)) \<and>
      ends_with_slash (join_two a b) = (ends_with_slash b \<or> (b = [] \<and> a \<noteq> []))) \<and>
   (length (joined (fragments paths)) < PATH_MAX \<longrightarrow>
      join_paths PATH_MAX paths = (Inr 0, joined (fragments paths)) \<and>
      ((\<forall>p \<in> set (fragments paths). \<not> double_slash p) \<longrightarrow>
         \<not> double_slash (joined (fragments paths))))"
proof -
  have general: "join_paths PATH_MAX ps = (Inr 0, joined (fragments ps))"
    if "length (joined (fragments ps)) < PATH_MAX" for ps
    using join_paths_loop_joined [of "[]" ps PATH_MAX] that
    by (simp add: join_paths_def joined_def)
  have two: "joined (fragments [Some a, Some b]) = join_two a b"
    by (simp add: joined_def fragments_def join_two_def)
  have pair: "join_paths PATH_MAX [Some a, Some b] = (Inr 0, join_two a b)"
    if "length (join_two a b) < PATH_MAX"
    using general [of "[Some a, Some b]"] that unfolding two by simp
  have nds: "\<not> double_slash (joined (fragments paths))"
    if "\<forall>p \<in> set (fragments paths). \<not> double_slash p"
    unfolding joined_def using that by (intro no_double_slash_foldl) simp_all
  show ?thesis
    using pair general [of paths] nds no_double_slash_join_two [of a b]
      ends_with_slash_join_two [of a b]
    by blast
qed

theorem join_paths_joined_witness:
  "join_paths 4096 [Some ''/usr/'', Some ''/bin''] = (Inr 0, ''/usr/bin'') \<and>
   \<not> double_slash ''/usr/bin'' \<and> \<not> ends_with_slash ''/usr/bin'' \<and>
   join_paths 4096 [Some ''/'', None, Some ''usr'', Some ''/lib/''] = (Inr 0, ''/usr/lib/'') \<and>
   \<not> double_slash ''/usr/lib/''"
proof -
  have j: "join_two ''/usr/'' ''/bin'' = ''/usr/bin''"
    by (simp add: join_two_def ends_with_slash_def starts_with_slash_def)
  have f: "joined (fragments [Some ''/'', None, Some ''usr'', Some ''/lib/'']) = ''/usr/lib/''"
    by (simp add: joined_def fragments_def join_two_def ends_with_slash_def starts_with_slash_def)
  have s: "set (fragments [Some ''/'', None, Some ''usr'', Some ''/lib/'']) = {''/'', ''usr'', ''/lib/''}"
    by (simp add: fragments_def)
  show ?thesis
    using join_paths_joined [of "''/usr/''" "''/bin''" 4096
        "[Some ''/'', None, Some ''usr'', Some ''/lib/'']"]
    unfolding j f s by (simp add: ends_with_slash_def)
qed

section \<open>The detranslator: claims\<close>





lemma compare_paths_Some_nonempty:
  "compare_paths p1 p2 = Some c \<Longrightarrow> p1 \<noteq> [] \<and> p2 \<noteq> []"
  by (auto simp: compare_paths_def compare_paths2_def split: if_splits)

lemma trimmed_length_le: "trimmed_length p \<le> length p"
  by (simp add: trimmed_length_def)

lemma compare_paths_PATH1_D:
  assumes "compare_paths p1 p2 = Some PATH1_IS_PREFIX" "cstring p1" "cstring p2"
  shows "trimmed_length p1 < trimmed_length p2 \<and>
         take (trimmed_length p1) p1 = take (trimmed_length p1) p2 \<and>
         byte_at p2 (trimmed_length p1) = CHR ''/''"
proof -
  have ne: "p1 \<noteq> []" "p2 \<noteq> []"
    using compare_paths_Some_nonempty [OF assms(1)] by simp_all
  have t: "trimmed_compare p1 p2 = PATH1_IS_PREFIX"
    using compare_paths_by_length [OF ne] assms(1) strncmp_take [OF assms(2,3)]
    by (simp add: trimmed_compare_def Let_def min_def split: if_splits)
  then have lt: "trimmed_length p1 < trimmed_length p2"
    by (auto simp: trimmed_compare_def Let_def split: if_splits)
  with t have s: "byte_at p2 (trimmed_length p1) = CHR ''/'' \<or> byte_at p2 (trimmed_length p1) = NUL"
    and e: "take (trimmed_length p1) p1 = take (trimmed_length p1) p2"
    by (auto simp: trimmed_compare_def Let_def min_def split: if_splits)
  have "trimmed_length p1 < length p2"
    using lt trimmed_length_le [of p2] by simp
  then have "byte_at p2 (trimmed_length p1) \<noteq> NUL"
    using assms(3) by (rule cstring_byte_at [rotated])
  with s lt e show ?thesis by simp
qed

lemma detranslate_path_toplevel:
  assumes "byte_at path 0 = CHR ''/''"
    and "substitute_binding env tracee HOST path = (st, path)" "st \<noteq> Inr 0" "st \<noteq> Inr 1"
  shows "detranslate_path env tracee path None = detranslate_root tracee True path"
  using assms
  by (auto simp: detranslate_path_def detranslate_policy_def split: sum.splits nat.splits)




text \<open>
  Claim C2: for a call \<open>detranslate_path(tracee, path, NULL)\<close> with an absolute
  \<open>path\<close>, a non-empty guest rootfs and no binding substitution (\<open>substitute_binding\<close>
  returns neither 0 nor 1 and leaves the path), the comparison of the rootfs with
  \<open>path\<close> decides: when the rootfs is a prefix (\<open>PATH1_IS_PREFIX\<close>) its
  \<open>strlen\<close> bytes are removed from the front of \<open>path\<close> and the length of the new
  path plus 1 is returned, a rootfs of one byte leaving the path unchanged; when the two
  are equal \<open>path\<close> becomes \<open>/\<close> (and 2 is returned); otherwise the call fails with
  \<open>EPERM\<close>.  For C strings and a rootfs without trailing \<open>/\<close>, what is removed is
  the rootfs itself and what stays starts with \<open>/\<close>.
\<close>

theorem detranslate_path_rootfs:
  assumes "byte_at path 0 = CHR ''/''"
    and "tracee_root tracee \<noteq> []"
    and "substitute_binding env tracee HOST path = (st, path)" "st \<noteq> Inr 0" "st \<noteq> Inr 1"
  shows "\<exists>comparison. compare_paths (tracee_root tracee) path = Some comparison \<and>
     detranslate_path env tracee path None =
       Some (if comparison = PATH1_IS_PREFIX
             then (let stripped = (if length (tracee_root tracee) = 1 then path
                                   else drop (length (tracee_root tracee)) path)
                   in (Inr (length stripped + 1), stripped))
             else if comparison = PATHS_ARE_EQUAL then (Inr 2, ''/'')
             else (Inl EPERM, path)) \<and>
     (comparison = PATH1_IS_PREFIX \<and> cstring (tracee_root tracee) \<and> cstring path \<and>
      \<not> ends_with_slash (tracee_root tracee) \<longrightarrow>
        path = tracee_root tracee @ drop (length (tracee_root tracee)) path \<and>
        starts_with_slash (drop (length (tracee_root tracee)) path))"
proof -
  have ne: "path \<noteq> []"
    using assms(1) NUL_not_slash by (auto simp: byte_at_Nil)
  obtain comparison where c: "compare_paths (tracee_root tracee) path = Some comparison"
    using compare_paths_nonempty [OF assms(2) ne] by auto
  have d: "detranslate_path env tracee path None = detranslate_root tracee True path"
    using assms(1,3,4,5) by (rule detranslate_path_toplevel)
  have r: "detranslate_root tracee True path =
       Some (if comparison = PATH1_IS_PREFIX
             then (let stripped = (if length (tracee_root tracee) = 1 then path
                                   else drop (length (tracee_root tracee)) path)
                   in (Inr (length stripped + 1), stripped))
             else if comparison = PATHS_ARE_EQUAL then (Inr 2, ''/'')
             else (Inl EPERM, path))"
    using c by (cases comparison) (simp_all add: detranslate_root_def Let_def)
  have p: "path = tracee_root tracee @ drop (length (tracee_root tracee)) path \<and>
        starts_with_slash (drop (length (tracee_root tracee)) path)"
    if "comparison = PATH1_IS_PREFIX" "cstring (tracee_root tracee)" "cstring path"
      "\<not> ends_with_slash (tracee_root tracee)"
  proof -
    have n: "trimmed_length (tracee_root tracee) = length (tracee_root tracee)"
      using that(4) by (auto simp: trimmed_length_def ends_with_slash_def)
    from compare_paths_PATH1_D [OF c [unfolded that(1)] that(2,3)]
    have lt: "length (tracee_root tracee) < trimmed_length path"
      and e: "tracee_root tracee = take (length (tracee_root tracee)) path"
      and s: "byte_at path (length (tracee_root tracee)) = CHR ''/''"
      unfolding n by simp_all
    have "take (length (tracee_root tracee)) path @ drop (length (tracee_root tracee)) path = path"
      by (rule append_take_drop_id)
    then have 1: "path = tracee_root tracee @ drop (length (tracee_root tracee)) path"
      using e by simp
    have "byte_at (drop (length (tracee_root tracee)) path) 0 = CHR ''/''"
      using s byte_at_drop [of path "length (tracee_root tracee)"] by simp
    then have 2: "starts_with_slash (drop (length (tracee_root tracee)) path)"
      by (simp add: byte_at_0_slash)
    from 1 2 show ?thesis ..
  qed
  show ?thesis
    using c d r p by auto
qed

theorem detranslate_path_rootfs_witness:
  "detranslate_path no_bindings jail ''/jail/home/u'' None = Some (Inr 8, ''/home/u'') \<and>
   detranslate_path no_bindings jail ''/jail/'' None = Some (Inr 2, ''/'') \<and>
   detranslate_path no_bindings jail ''/etc/passwd'' None = Some (Inl EPERM, ''/etc/passwd'') \<and>
   detranslate_path no_bindings (jail\<lparr>tracee_root := ''/''\<rparr>) ''/etc/passwd'' None =
     Some (Inr 12, ''/etc/passwd'')"
proof -
  have c: "compare_paths ''/jail'' ''/jail/home/u'' = Some PATH1_IS_PREFIX"
    "compare_paths ''/jail'' ''/jail/'' = Some PATHS_ARE_EQUAL"
    "compare_paths ''/jail'' ''/etc/passwd'' = Some PATHS_ARE_NOT_COMPARABLE"
    "compare_paths ''/'' ''/etc/passwd'' = Some PATH1_IS_PREFIX"
    by code_simp+
  have s: "\<And>tracee path. substitute_binding no_bindings tracee HOST path = (Inl ENOENT, path)"
    by (simp add: no_bindings_def)
  show ?thesis
    using detranslate_path_rootfs [of "''/jail/home/u''" jail no_bindings "Inl ENOENT", OF _ _ s]
      detranslate_path_rootfs [of "''/jail/''" jail no_bindings "Inl ENOENT", OF _ _ s]
      detranslate_path_rootfs [of "''/etc/passwd''" jail no_bindings "Inl ENOENT", OF _ _ s]
      detranslate_path_rootfs [of "''/etc/passwd''" "jail\<lparr>tracee_root := ''/''\<rparr>" no_bindings
        "Inl ENOENT", OF _ _ s]
    by (simp add: c jail_def byte_at_def)
qed





section \<open>Open file descriptors: claims\<close>

lemma foreach_fd_loop_nonpositive:
  "fst (foreach_fd_loop os PATH_MAX HAVE_READLINKAT pid callback proc_fd dirents s) \<le> 0"
proof (induction dirents arbitrary: s)
  case Nil
  show ?case by simp
next
  case (Cons d_name dirents)
  show ?case
    using Cons.IH by (auto split: option.splits prod.splits)
qed

lemma foreach_fd_loop_zero:
  assumes "\<And>s pid fd path. fst (callback s pid fd path) = 0"
  shows "fst (foreach_fd_loop os PATH_MAX HAVE_READLINKAT pid callback proc_fd dirents s) = 0"
proof (induction dirents arbitrary: s)
  case Nil
  show ?case by simp
next
  case (Cons d_name dirents)
  have "\<And>s pid fd path status s'. callback s pid fd path = (status, s') \<Longrightarrow> status = 0"
    using assms by (metis fst_conv)
  then show ?case
    using Cons.IH by (auto split: option.splits prod.splits)
qed

lemma foreach_fd_loop_pure:
  "fst (foreach_fd_loop os PATH_MAX HAVE_READLINKAT pid
          (\<lambda>s pid fd path. (callback pid fd path, s)) proc_fd dirents s) =
   first_negative (map (\<lambda>(d_name, path). callback pid (atoi d_name) path)
                     (linked_paths os PATH_MAX HAVE_READLINKAT proc_fd dirents))"
proof (induction dirents arbitrary: s)
  case Nil
  show ?case by (simp add: linked_paths_def first_negative_def)
next
  case (Cons d_name dirents)
  have l: "linked_paths os PATH_MAX HAVE_READLINKAT proc_fd (d_name # dirents) =
      (case read_fd_link os PATH_MAX HAVE_READLINKAT proc_fd d_name of
         None \<Rightarrow> []
       | Some path \<Rightarrow> if byte_at path 0 = CHR ''/'' then [(d_name, path)] else []) @
      linked_paths os PATH_MAX HAVE_READLINKAT proc_fd dirents"
    by (simp add: linked_paths_def)
  show ?case
    unfolding l using Cons.IH
    by (auto simp: first_negative_def split: option.splits)
qed

text \<open>
  Claim C7: \<open>list_open_fd\<close> returns 0 for every pid and every host, whether or not
  \<open>/proc/<pid>/fd\<close> can be opened and whatever links can be read.  \<open>foreach_fd\<close>
  never returns a positive value; for a callback without effect it skips the entries
  whose link cannot be read or does not name a path, and returns the first negative
  result of the callback on the others, 0 when there is none.
\<close>

theorem list_open_fd_returns_0:
  "fst (list_open_fd VERBOSE os PATH_MAX HAVE_READLINKAT pid s) = 0 \<and>
   fst (foreach_fd os PATH_MAX HAVE_READLINKAT pid stateful s) \<le> 0 \<and>
   fst (foreach_fd os PATH_MAX HAVE_READLINKAT pid (\<lambda>s pid fd path. (callback pid fd path, s)) s) =
     (if length (''/proc/'' @ dec pid @ ''/fd'') \<ge> 32 then 0
      else case opendir os (''/proc/'' @ dec pid @ ''/fd'') of
             None \<Rightarrow> 0
           | Some dirents \<Rightarrow>
               first_negative
                 (map (\<lambda>(d_name, path). callback pid (atoi d_name) path)
                    (linked_paths os PATH_MAX HAVE_READLINKAT (''/proc/'' @ dec pid @ ''/fd'') dirents)))"
proof -
  have 1: "fst (list_open_fd VERBOSE os PATH_MAX HAVE_READLINKAT pid s) = 0"
    unfolding list_open_fd_def foreach_fd_def Let_def
    by (auto simp: list_open_fd_callback_def foreach_fd_loop_zero split: option.splits)
  have 2: "fst (foreach_fd os PATH_MAX HAVE_READLINKAT pid stateful s) \<le> 0"
    unfolding foreach_fd_def Let_def
    by (auto simp: foreach_fd_loop_nonpositive split: option.splits)
  have 3: "fst (foreach_fd os PATH_MAX HAVE_READLINKAT pid (\<lambda>s pid fd path. (callback pid fd path, s)) s) =
     (if length (''/proc/'' @ dec pid @ ''/fd'') \<ge> 32 then 0
      else case opendir os (''/proc/'' @ dec pid @ ''/fd'') of
             None \<Rightarrow> 0
           | Some dirents \<Rightarrow>
               first_negative
                 (map (\<lambda>(d_name, path). callback pid (atoi d_name) path)
                    (linked_paths os PATH_MAX HAVE_READLINKAT (''/proc/'' @ dec pid @ ''/fd'') dirents)))"
    unfolding foreach_fd_def Let_def
    by (auto simp: foreach_fd_loop_pure split: option.splits)
  from 1 2 3 show ?thesis by simp
qed

theorem list_open_fd_returns_0_witness:
  "list_open_fd (\<lambda>s level text. s @ [text]) proc_host 4096 True 42 [] =
     (0, [''pid 42: access to \"/jail/tmp/gone (deleted)\" (fd 3) won't be translated until closed'',
          ''pid 42: access to \"/jail/etc/passwd\" (fd 5) won't be translated until closed'']) \<and>
   fst (list_open_fd (\<lambda>s level text. s @ [text]) proc_host 4096 True 7 []) = 0 \<and>
   fst (foreach_fd proc_host 4096 False 42 (\<lambda>s pid fd path. (- fd, s)) ()) = - 3"
proof -
  have a: "list_open_fd (\<lambda>s level text. s @ [text]) proc_host 4096 True 42 [] =
     (0, [''pid 42: access to \"/jail/tmp/gone (deleted)\" (fd 3) won't be translated until closed'',
          ''pid 42: access to \"/jail/etc/passwd\" (fd 5) won't be translated until closed''])"
    by code_simp
  have b: "fst (foreach_fd proc_host 4096 False 42 (\<lambda>s pid fd path. (- fd, s)) ()) = - 3"
    by code_simp
  show ?thesis
    using a b list_open_fd_returns_0 [of "\<lambda>s level text. s @ [text]" proc_host 4096 True 7 "[]"]
    by simp
qed

section \<open>The translator: claims\<close>

lemma translate_base_checked_stat:
  assumes "dir_fd \<noteq> AT_FDCWD"
    and "snprintf_link (''/proc/'' @ dec pid @ ''/fd/'' @ dec dir_fd) = Inr link"
    and "readlink os link = Some target" "length target < PATH_MAX"
    and "stat os target = Some st_mode" "\<not> S_ISDIR st_mode"
  shows "translate_base env os PATH_MAX statl0 tracee pid dir_fd = Some (Inl ENOTDIR)"
  using assms by (simp add: translate_base_def Let_def min_def)

text \<open>
  Claim C4 holds of the specification and fails on the code: \<open>translate_path\<close> does
  not look at the return value of \<open>stat\<close>.  Descriptor 3 of the tracee 42 names a
  removed directory and \<open>stat\<close> of its link fails; the result then depends on what the
  variable \<open>statl\<close> held before the call.  With the mode of a directory there, the
  translation goes on and succeeds, where the claim has it fail with \<open>ENOTDIR\<close>;
  with 0 there, it fails with \<open>ENOTDIR\<close>.
\<close>

theorem translate_path_failed_stat:
  "stat proc_host ''/jail/tmp/gone (deleted)'' = None \<and>
   translate_path jail_collaborators proc_host 4096 0x41ED jail 3 ''file'' True =
     Some (Inr ''/jail/tmp/gone (deleted)/file'') \<and>
   translate_path jail_collaborators proc_host 4096 0 jail 3 ''file'' True = Some (Inl ENOTDIR)"
proof -
  have a: "stat proc_host ''/jail/tmp/gone (deleted)'' = None"
    by (simp add: proc_host_def)
  have b: "translate_path jail_collaborators proc_host 4096 0x41ED jail 3 ''file'' True =
     Some (Inr ''/jail/tmp/gone (deleted)/file'')"
    by code_simp
  have c: "translate_path jail_collaborators proc_host 4096 0 jail 3 ''file'' True =
     Some (Inl ENOTDIR)"
    by code_simp
  from a b c show ?thesis by simp
qed

end
